theory Spec2Isabelle
  imports Main
begin

section \<open>Payloads: structpb.Struct messages\<close>

text \<open>
  Every mailbox carries schema-free \<^verbatim>\<open>*structpb.Struct\<close> payloads. A field is read with
  \<^verbatim>\<open>msg.GetFields()["k"].GetStringValue()\<close>: the getters are nil-safe, so a missing field
  or a field of another kind reads as the zero value (\<open>""\<close>, \<open>false\<close>). A request whose
  message is not a Struct fails the type assertion on \<^verbatim>\<open>req.Msg()\<close>. \<^verbatim>\<open>structpb.NewStruct\<close>
  builds a Struct from a Go map; it fails only on a string that is not valid UTF-8, and the
  strings of this program (operation names, actor names, identifiers, paths) are taken to
  be valid.
\<close>

datatype pvalue = StringValue string | BoolValue bool | OtherValue

type_synonym fields = "string \<rightharpoonup> pvalue"

datatype message = Struct fields | NotStruct

definition GetStringValue :: "pvalue option \<Rightarrow> string" where
  "GetStringValue v = (case v of Some (StringValue s) \<Rightarrow> s | _ \<Rightarrow> [])"

definition GetBoolValue :: "pvalue option \<Rightarrow> bool" where
  "GetBoolValue v = (case v of Some (BoolValue b) \<Rightarrow> b | _ \<Rightarrow> False)"

section \<open>Go integers and Go maps\<close>

text \<open>
  The counters are Go \<^verbatim>\<open>int\<close>s: 64-bit two's complement on the 64-bit targets the server is
  built for. They are modelled as integers with the wrap-around of \<^verbatim>\<open>x++\<close> and \<^verbatim>\<open>x--\<close>
  written out.
\<close>

definition max_int :: int where
  "max_int = 2 ^ 63 - 1"

definition min_int :: int where
  "min_int = - (2 ^ 63)"

definition go_inc :: "int \<Rightarrow> int" where
  "go_inc x = (if x = max_int then min_int else x + 1)"

definition go_dec :: "int \<Rightarrow> int" where
  "go_dec x = (if x = min_int then max_int else x - 1)"

text \<open>Reading a \<^verbatim>\<open>map[string]int\<close> at a missing key yields 0; \<^verbatim>\<open>m[k]++\<close> stores the successor.\<close>

definition lookup0 :: "(string \<rightharpoonup> int) \<Rightarrow> string \<Rightarrow> int" where
  "lookup0 m k = (case m k of None \<Rightarrow> 0 | Some v \<Rightarrow> v)"

definition map_inc :: "(string \<rightharpoonup> int) \<Rightarrow> string \<Rightarrow> (string \<rightharpoonup> int)" where
  "map_inc m k = m(k \<mapsto> go_inc (lookup0 m k))"

definition map_dec :: "(string \<rightharpoonup> int) \<Rightarrow> string \<Rightarrow> (string \<rightharpoonup> int)" where
  "map_dec m k = m(k \<mapsto> go_dec (lookup0 m k))"

section \<open>filepath.Base\<close>

text \<open>
  Go's \<^verbatim>\<open>filepath.Base\<close> on a Unix target: the empty path gives \<open>"."\<close>, trailing slashes are
  stripped, the text after the last remaining slash is returned, and a path of slashes only
  gives \<open>"/"\<close>.
\<close>

definition strip_trailing_slashes :: "string \<Rightarrow> string" where
  "strip_trailing_slashes p = rev (dropWhile (\<lambda>c. c = CHR ''/'') (rev p))"

definition last_element :: "string \<Rightarrow> string" where
  "last_element p = rev (takeWhile (\<lambda>c. c \<noteq> CHR ''/'') (rev p))"

definition Base :: "string \<Rightarrow> string" where
  "Base path =
     (if path = [] then ''.''
      else let p = last_element (strip_trailing_slashes path)
           in if p = [] then ''/'' else p)"

section \<open>The API server state (the Aggregator)\<close>

text \<open>
  The mutable fields of \<^verbatim>\<open>api.Server\<close>. \<^verbatim>\<open>snapshotJSON\<close> marshals exactly these nine fields,
  so a published snapshot is a copy of this record.
\<close>

record server =
  variants :: "string \<rightharpoonup> (string \<rightharpoonup> string)"
  totalUploads :: int
  totalVariants :: int
  failedVariants :: int
  activeWorkers :: int
  startedWorkers :: int
  activeWorkersPerOp :: "string \<rightharpoonup> int"
  successPerOp :: "string \<rightharpoonup> int"
  failedPerOp :: "string \<rightharpoonup> int"

definition New :: server where
  "New = \<lparr> variants = Map.empty, totalUploads = 0, totalVariants = 0, failedVariants = 0,
           activeWorkers = 0, startedWorkers = 0, activeWorkersPerOp = Map.empty,
           successPerOp = Map.empty, failedPerOp = Map.empty \<rparr>"

text \<open>
  What the handlers and actors do besides changing their own state: the calls they make on a
  request (\<^verbatim>\<open>Ack\<close>, \<^verbatim>\<open>Respond\<close>), on a grid client (\<^verbatim>\<open>RequestC\<close> to a named mailbox,
  \<^verbatim>\<open>BroadcastC\<close> to the \<^verbatim>\<open>Fastest\<close> group of the members, with the timeout of its context in
  seconds), on etcd (\<^verbatim>\<open>Get\<close> with the timeout of its context and the prefix), on their
  mailbox, the snapshot pushed to the subscribers, and the lines they log on their error
  paths (\<^verbatim>\<open>Log\<close>, with the fixed text of the line; informational lines are left out).
\<close>

datatype effect =
    Ack
  | Respond message
  | RequestC string message
  | BroadcastC nat "string list" message
  | BroadcastSnapshot server
  | EtcdPut string string
  | EtcdDelete string
  | EtcdGet nat string
  | MailboxClose
  | Transform string string string
  | Log string

definition variant_of :: "server \<Rightarrow> string \<Rightarrow> string \<Rightarrow> string option" where
  "variant_of s ident op = (case variants s ident of None \<Rightarrow> None | Some m \<Rightarrow> m op)"

text \<open>
  The body of the receive loop of \<^verbatim>\<open>subscribeUpdates\<close> for one request. The optional Spanner
  copy of the variant only logs on failure and touches no field of the server; it is left out.
\<close>

definition set_variant :: "server \<Rightarrow> string \<Rightarrow> string \<Rightarrow> string \<Rightarrow> server" where
  "set_variant s ident op path =
     (let inner = (case variants s ident of None \<Rightarrow> Map.empty | Some m \<Rightarrow> m)
      in s\<lparr>variants := (variants s)(ident \<mapsto> inner(op \<mapsto> ''/images/'' @ ident @ ''/'' @ Base path))\<rparr>)"

definition count_outcome :: "server \<Rightarrow> string \<Rightarrow> bool \<Rightarrow> server" where
  "count_outcome s op success =
     (if success
      then s\<lparr>totalVariants := go_inc (totalVariants s), successPerOp := map_inc (successPerOp s) op\<rparr>
      else s\<lparr>failedVariants := go_inc (failedVariants s), failedPerOp := map_inc (failedPerOp s) op\<rparr>)"

definition updates_handle :: "server \<Rightarrow> message \<Rightarrow> server \<times> effect list" where
  "updates_handle s req =
     (case req of
        NotStruct \<Rightarrow> (s, [Ack])
      | Struct msg \<Rightarrow>
          let ident = GetStringValue (msg ''image_id'');
              op = GetStringValue (msg ''op'');
              path = GetStringValue (msg ''path'');
              s1 = set_variant s ident op path;
              s2 = count_outcome s1 op (GetBoolValue (msg ''success''))
          in (s2, [BroadcastSnapshot s2, Ack]))"

text \<open>
  \<^verbatim>\<open>subscribeUpdates\<close> run on the requests that the \<open>transform-updates\<close> mailbox delivers before
  the grid context is done. When \<^verbatim>\<open>WaitUntilStarted\<close> or \<^verbatim>\<open>NewMailbox\<close> fails the function
  returns before the loop: that is the empty list of requests.
\<close>

fun subscribeUpdates :: "server \<Rightarrow> message list \<Rightarrow> server \<times> effect list" where
  "subscribeUpdates s [] = (s, [])"
| "subscribeUpdates s (req # reqs) =
     (let (s1, es1) = updates_handle s req;
          (s2, es2) = subscribeUpdates s1 reqs
      in (s2, es1 @ es2))"

text \<open>The body of the receive loop of \<^verbatim>\<open>subscribeSystemEvents\<close> for one request.\<close>

definition lifecycle :: "server \<Rightarrow> string \<Rightarrow> string \<Rightarrow> server" where
  "lifecycle s evt op =
     (if evt = ''worker_start''
      then s\<lparr>startedWorkers := go_inc (startedWorkers s),
             activeWorkers := go_inc (activeWorkers s),
             activeWorkersPerOp := map_inc (activeWorkersPerOp s) op\<rparr>
      else if evt = ''worker_stop''
      then (let s1 = (if activeWorkers s > 0 then s\<lparr>activeWorkers := go_dec (activeWorkers s)\<rparr> else s)
            in if lookup0 (activeWorkersPerOp s1) op > 0
               then s1\<lparr>activeWorkersPerOp := map_dec (activeWorkersPerOp s1) op\<rparr>
               else s1)
      else s)"

definition system_events_handle :: "server \<Rightarrow> message \<Rightarrow> server \<times> effect list" where
  "system_events_handle s req =
     (case req of
        NotStruct \<Rightarrow> (s, [Ack])
      | Struct msg \<Rightarrow>
          let evt = GetStringValue (msg ''event'');
              op = GetStringValue (msg ''op'');
              s1 = lifecycle s evt op
          in (s1, [BroadcastSnapshot s1, Ack]))"

fun subscribeSystemEvents :: "server \<Rightarrow> message list \<Rightarrow> server \<times> effect list" where
  "subscribeSystemEvents s [] = (s, [])"
| "subscribeSystemEvents s (req # reqs) =
     (let (s1, es1) = system_events_handle s req;
          (s2, es2) = subscribeSystemEvents s1 reqs
      in (s2, es1 @ es2))"

section \<open>The upload handler\<close>

text \<open>
  What the environment answers during one call of \<^verbatim>\<open>handleUpload\<close>: whether each fallible
  call succeeds, the fresh \<^verbatim>\<open>uuid\<close>, and the path \<^verbatim>\<open>filepath.Join(dir, "original"+ext)\<close> the
  original is written to.
\<close>

record upload =
  formFileOk :: bool
  uuid :: string
  mkdirAllOk :: bool
  createOk :: bool
  copyOk :: bool
  originalPath :: string
  newClientOk :: bool
  requestOk :: bool

datatype http_response = HttpError string nat | HttpJson "(string \<times> string) list"

text \<open>
  The optional Spanner copy of the original only logs on failure; it is left out. A failed
  \<^verbatim>\<open>RequestC\<close> to the \<open>uploads\<close> mailbox is logged and nothing else happens on it.
\<close>

definition handleUpload :: "server \<Rightarrow> upload \<Rightarrow> server \<times> effect list \<times> http_response" where
  "handleUpload s r =
     (if \<not> formFileOk r then (s, [], HttpError ''file required'' 400)
      else if \<not> mkdirAllOk r then (s, [], HttpError ''cannot create dir'' 500)
      else if \<not> createOk r then (s, [], HttpError ''save failed'' 500)
      else if \<not> copyOk r then (s, [], HttpError ''copy failed'' 500)
      else
        let payload = Struct [''image_id'' \<mapsto> StringValue (uuid r),
                              ''path'' \<mapsto> StringValue (originalPath r)]
        in if \<not> newClientOk r then (s, [Log ''api grid client''], HttpError ''internal'' 500)
           else
             let s1 = s\<lparr>totalUploads := go_inc (totalUploads s)\<rparr>
             in (s1,
                 RequestC ''uploads'' payload #
                 (if requestOk r then [] else [Log ''api upload request'']) @
                 [BroadcastSnapshot s1],
                 HttpJson [(''image_id'', uuid r)]))"

section \<open>The server as a whole\<close>

text \<open>
  \<^verbatim>\<open>New\<close> starts the two subscriber goroutines and \<^verbatim>\<open>Listen\<close> serves uploads, all on the same
  \<^verbatim>\<open>Server\<close>. The three write disjoint fields, so a run of the server is an interleaving of
  their per-request bodies in the order the requests are taken.
\<close>

datatype inbound = TransformUpdate message | SystemEvent message | HttpUpload upload

fun Server_step :: "server \<Rightarrow> inbound \<Rightarrow> server" where
  "Server_step s (TransformUpdate req) = fst (updates_handle s req)"
| "Server_step s (SystemEvent req) = fst (system_events_handle s req)"
| "Server_step s (HttpUpload r) = fst (handleUpload s r)"

fun Server_run :: "server \<Rightarrow> inbound list \<Rightarrow> server" where
  "Server_run s [] = s"
| "Server_run s (x # xs) = Server_run (Server_step s x) xs"

section \<open>The worker\<close>

record actor =
  Namespace :: string

record worker = actor +
  SupportedOp :: string

datatype mailbox_result = MailboxOk | ErrAlreadyRegistered | MailboxError

text \<open>Each place where the worker opens a grid client; the report of the i-th request is its own.\<close>

datatype client_use = AnnounceStart | AnnounceStop | ReportOutcome nat

text \<open>
  What the environment answers to one worker: the actor name of its context, whether
  \<^verbatim>\<open>grid.NewClient\<close> succeeds at each use, what \<^verbatim>\<open>NewMailbox\<close> returns, whether \<^verbatim>\<open>imaging.Open\<close>
  and \<^verbatim>\<open>imaging.Save\<close> succeed on a path, and the library functions \<^verbatim>\<open>filepath.Dir\<close> and
  \<^verbatim>\<open>filepath.Join\<close>.
\<close>

record worker_env =
  actorName :: string
  gridClientOk :: "client_use \<Rightarrow> bool"
  newMailbox :: mailbox_result
  openOk :: "string \<Rightarrow> bool"
  saveOk :: "string \<Rightarrow> bool"
  Dir :: "string \<Rightarrow> string"
  Join :: "string \<Rightarrow> string \<Rightarrow> string"

datatype transform_error = OpenError | UnknownOp string | SaveError

definition doTransform :: "worker_env \<Rightarrow> string \<Rightarrow> string \<Rightarrow> string \<Rightarrow> transform_error option" where
  "doTransform env src dst op =
     (if \<not> openOk env src then Some OpenError
      else if op = ''thumbnail'' \<or> op = ''grayscale'' \<or> op = ''blur'' \<or> op = ''rotate90''
      then (if saveOk env dst then None else Some SaveError)
      else Some (UnknownOp op))"

text \<open>The body of the worker's receive loop for the i-th request.\<close>

definition worker_handle :: "worker \<Rightarrow> worker_env \<Rightarrow> nat \<Rightarrow> message \<Rightarrow> effect list" where
  "worker_handle w env i req =
     (case req of
        NotStruct \<Rightarrow> [Ack]
      | Struct task \<Rightarrow>
          let imageID = GetStringValue (task ''image_id'');
              op = GetStringValue (task ''op'')
          in if SupportedOp w \<noteq> [] \<and> op \<noteq> SupportedOp w then [Ack]
             else
               let baseDir = Dir env (GetStringValue (task ''path''));
                   original = GetStringValue (task ''path'');
                   variantPath = Join env baseDir (op @ ''.jpg'');
                   err = doTransform env original variantPath op;
                   success = (err = None);
                   result = Struct [''image_id'' \<mapsto> StringValue imageID,
                                    ''op'' \<mapsto> StringValue op,
                                    ''success'' \<mapsto> BoolValue success,
                                    ''path'' \<mapsto> StringValue variantPath]
               in Transform original variantPath op #
                  (if success then [] else [Log ''worker transform error'']) @
                  [Respond result] @
                  (if gridClientOk env (ReportOutcome i)
                   then [RequestC ''transform-updates'' result] else []))"

fun worker_loop :: "worker \<Rightarrow> worker_env \<Rightarrow> nat \<Rightarrow> message list \<Rightarrow> effect list" where
  "worker_loop w env i [] = []"
| "worker_loop w env i (req # reqs) = worker_handle w env i req @ worker_loop w env (Suc i) reqs"

definition mailboxName :: "worker \<Rightarrow> string \<Rightarrow> string" where
  "mailboxName w name =
     (if SupportedOp w \<noteq> [] then ''worker-'' @ SupportedOp w @ ''-'' @ name else ''worker'')"

definition worker_key :: "worker \<Rightarrow> string \<Rightarrow> string" where
  "worker_key w name =
     ''/'' @ Namespace w @ ''/workers/'' @ SupportedOp w @ ''/'' @ mailboxName w name"

definition lifecycle_msg :: "worker \<Rightarrow> string \<Rightarrow> string \<Rightarrow> message" where
  "lifecycle_msg w name evt =
     Struct [''event'' \<mapsto> StringValue evt, ''name'' \<mapsto> StringValue name,
             ''op'' \<mapsto> StringValue (SupportedOp w),
             ''mailbox'' \<mapsto> StringValue (mailboxName w name)]"

text \<open>
  \<^verbatim>\<open>Worker.Act\<close>, run on the requests its mailbox delivers before its context is done. The
  deferred calls run in reverse order of their registration when the loop returns: first
  the stop announcement and the deletion of the key, then \<^verbatim>\<open>mb.Close()\<close>. Both returns taken
  when \<^verbatim>\<open>NewMailbox\<close> fails come before any \<^verbatim>\<open>defer\<close> is registered.
\<close>

definition Worker_Act :: "worker \<Rightarrow> worker_env \<Rightarrow> message list \<Rightarrow> effect list" where
  "Worker_Act w env reqs =
     (let name = actorName env;
          key = worker_key w name;
          announce = (if gridClientOk env AnnounceStart
                      then [RequestC ''system-events'' (lifecycle_msg w name ''worker_start'')]
                      else [])
      in announce @ [EtcdPut key []] @
         (case newMailbox env of
            ErrAlreadyRegistered \<Rightarrow>
              [Log ''worker: mailbox already registered on this peer'', EtcdDelete key]
          | MailboxError \<Rightarrow> [Log ''worker: cannot create mailbox'', EtcdDelete key]
          | MailboxOk \<Rightarrow>
              worker_loop w env 0 reqs @
              (if gridClientOk env AnnounceStop
               then [RequestC ''system-events'' (lifecycle_msg w name ''worker_stop'')]
               else []) @
              [EtcdDelete key] @ [MailboxClose]))"

section \<open>The coordinator\<close>

datatype get_result = GetError | GetOk "string list"

text \<open>
  What the environment answers while one upload is dispatched: whether \<^verbatim>\<open>grid.NewClient\<close>
  succeeds, and what \<^verbatim>\<open>Etcd.Get(ctxb, prefix, WithPrefix())\<close> returns for a prefix (an error,
  which a context that has timed out gives too, or the keys of \<^verbatim>\<open>resp.Kvs\<close>).
\<close>

record dispatch_env =
  coordClientOk :: bool
  etcdGet :: "string \<Rightarrow> get_result"

definition ops :: "string list" where
  "ops = [''thumbnail'', ''grayscale'', ''blur'', ''rotate90'']"

definition dispatchTimeout :: nat where
  "dispatchTimeout = 10"

definition workers_prefix :: "'a actor_scheme \<Rightarrow> string \<Rightarrow> string" where
  "workers_prefix c op = ''/'' @ Namespace c @ ''/workers/'' @ op @ ''/''"

text \<open>The loop over \<^verbatim>\<open>resp.Kvs\<close> that cuts the mailbox name out of each key.\<close>

fun collect_members :: "string \<Rightarrow> string list \<Rightarrow> string list" where
  "collect_members prefix [] = []"
| "collect_members prefix (mbox # kvs) =
     (if length prefix \<le> length mbox
      then drop (length prefix) mbox # collect_members prefix kvs
      else collect_members prefix kvs)"

definition discover :: "'a actor_scheme \<Rightarrow> (string \<Rightarrow> get_result) \<Rightarrow> string \<Rightarrow> string list" where
  "discover c get op =
     (case get (workers_prefix c op) of
        GetError \<Rightarrow> []
      | GetOk kvs \<Rightarrow> collect_members (workers_prefix c op) kvs)"

definition make_task :: "fields \<Rightarrow> string \<Rightarrow> string \<Rightarrow> message" where
  "make_task msg imageID op =
     Struct [''image_id'' \<mapsto> StringValue imageID, ''op'' \<mapsto> StringValue op,
             ''path'' \<mapsto> StringValue (GetStringValue (msg ''path''))]"

text \<open>The loop \<^verbatim>\<open>for _, op := range ops\<close>; the results of \<^verbatim>\<open>BroadcastC\<close> are discarded.\<close>

fun dispatch_ops :: "'a actor_scheme \<Rightarrow> dispatch_env \<Rightarrow> fields \<Rightarrow> string \<Rightarrow> string list \<Rightarrow> effect list" where
  "dispatch_ops c env msg imageID [] = []"
| "dispatch_ops c env msg imageID (op # rest) =
     (let task = make_task msg imageID op;
          members = discover c (etcdGet env) op
      in EtcdGet dispatchTimeout (workers_prefix c op) #
         (if members = [] then dispatch_ops c env msg imageID rest
          else BroadcastC dispatchTimeout members task # dispatch_ops c env msg imageID rest))"

definition coordinator_handle :: "'a actor_scheme \<Rightarrow> dispatch_env \<Rightarrow> message \<Rightarrow> effect list" where
  "coordinator_handle c env req =
     (case req of
        NotStruct \<Rightarrow> [Ack]
      | Struct msg \<Rightarrow>
          let imageID = GetStringValue (msg ''image_id'')
          in Ack # (if \<not> coordClientOk env then [Log ''coordinator grid client error'']
                    else dispatch_ops c env msg imageID ops))"

fun coordinator_loop :: "'a actor_scheme \<Rightarrow> (message \<times> dispatch_env) list \<Rightarrow> effect list" where
  "coordinator_loop c [] = []"
| "coordinator_loop c ((req, env) # rest) = coordinator_handle c env req @ coordinator_loop c rest"

text \<open>
  \<^verbatim>\<open>Coordinator.Act\<close>, run on the requests the \<open>uploads\<close> mailbox delivers before the context
  is done, each with the environment of its dispatch.
\<close>

definition Coordinator_Act :: "'a actor_scheme \<Rightarrow> bool \<Rightarrow> (message \<times> dispatch_env) list \<Rightarrow> effect list" where
  "Coordinator_Act c mailboxOk reqs =
     (if \<not> mailboxOk then [Log ''coordinator: cannot create mailbox'']
      else coordinator_loop c reqs @ [MailboxClose])"

section \<open>The registry: etcd as a key/value store\<close>

text \<open>
  The etcd service is outside the repository. Its key/value contract is modelled as a list
  of pairs: \<^verbatim>\<open>Put\<close> overwrites the value of a key that exists and adds the key otherwise,
  \<^verbatim>\<open>Delete\<close> removes the key, and \<^verbatim>\<open>Get\<close> with \<^verbatim>\<open>WithPrefix\<close> answers the keys that start with
  the prefix.
\<close>

type_synonym etcd = "(string \<times> string) list"

fun etcd_put :: "etcd \<Rightarrow> string \<Rightarrow> string \<Rightarrow> etcd" where
  "etcd_put [] k v = [(k, v)]"
| "etcd_put ((k', v') # kvs) k v =
     (if k' = k then (k, v) # kvs else (k', v') # etcd_put kvs k v)"

fun etcd_delete :: "etcd \<Rightarrow> string \<Rightarrow> etcd" where
  "etcd_delete [] k = []"
| "etcd_delete ((k', v') # kvs) k =
     (if k' = k then etcd_delete kvs k else (k', v') # etcd_delete kvs k)"

definition has_prefix :: "string \<Rightarrow> string \<Rightarrow> bool" where
  "has_prefix p k = (take (length p) k = p)"

definition etcd_get_prefix :: "etcd \<Rightarrow> string \<Rightarrow> get_result" where
  "etcd_get_prefix s p = GetOk (filter (has_prefix p) (map fst s))"

text \<open>The effect of an actor's calls on the store; calls that are not writes leave it alone.\<close>

fun etcd_apply :: "etcd \<Rightarrow> effect \<Rightarrow> etcd" where
  "etcd_apply s (EtcdPut k v) = etcd_put s k v"
| "etcd_apply s (EtcdDelete k) = etcd_delete s k"
| "etcd_apply s _ = s"

fun etcd_run :: "etcd \<Rightarrow> effect list \<Rightarrow> etcd" where
  "etcd_run s [] = s"
| "etcd_run s (e # es) = etcd_run (etcd_apply s e) es"

text \<open>\<^verbatim>\<open>register\<close> and \<^verbatim>\<open>deregister\<close> as the worker performs them, and \<^verbatim>\<open>list\<close> as the coordinator does.\<close>

definition register :: "etcd \<Rightarrow> worker \<Rightarrow> string \<Rightarrow> etcd" where
  "register s w name = etcd_apply s (EtcdPut (worker_key w name) [])"

definition deregister :: "etcd \<Rightarrow> worker \<Rightarrow> string \<Rightarrow> etcd" where
  "deregister s w name = etcd_apply s (EtcdDelete (worker_key w name))"

definition list_workers :: "etcd \<Rightarrow> 'a actor_scheme \<Rightarrow> string \<Rightarrow> string list" where
  "list_workers s c op = discover c (etcd_get_prefix s) op"

section \<open>Notions used in the statements\<close>

text \<open>
  A \<open>worker_start\<close> event taken from the \<open>system-events\<close> mailbox; an outcome for an
  operation taken from the \<open>transform-updates\<close> mailbox; among the effects of an actor, the
  announcement of a stop, a deletion in etcd, a logged error, a broadcast.
\<close>

definition is_worker_start :: "inbound \<Rightarrow> bool" where
  "is_worker_start x =
     (case x of SystemEvent (Struct msg) \<Rightarrow> GetStringValue (msg ''event'') = ''worker_start''
      | _ \<Rightarrow> False)"

definition is_outcome_for :: "string \<Rightarrow> inbound \<Rightarrow> bool" where
  "is_outcome_for op x =
     (case x of TransformUpdate (Struct msg) \<Rightarrow> GetStringValue (msg ''op'') = op | _ \<Rightarrow> False)"

definition is_worker_stop :: "effect \<Rightarrow> bool" where
  "is_worker_stop e =
     (case e of
        RequestC mb (Struct msg) \<Rightarrow>
          mb = ''system-events'' \<and> GetStringValue (msg ''event'') = ''worker_stop''
      | _ \<Rightarrow> False)"

definition is_delete :: "effect \<Rightarrow> bool" where
  "is_delete e = (case e of EtcdDelete k \<Rightarrow> True | _ \<Rightarrow> False)"

definition is_log :: "effect \<Rightarrow> bool" where
  "is_log e = (case e of Log l \<Rightarrow> True | _ \<Rightarrow> False)"

definition is_broadcast :: "effect \<Rightarrow> bool" where
  "is_broadcast e = (case e of BroadcastC t members task \<Rightarrow> True | _ \<Rightarrow> False)"

section \<open>Sample inputs\<close>

definition blur_worker :: worker where
  "blur_worker = \<lparr>Namespace = ''imgsvc'', SupportedOp = ''blur''\<rparr>"

definition sample_env :: "mailbox_result \<Rightarrow> worker_env" where
  "sample_env r =
     \<lparr>actorName = ''worker-blur-1'', gridClientOk = (\<lambda>u. True), newMailbox = r,
      openOk = (\<lambda>p. True), saveOk = (\<lambda>p. True),
      Dir = (\<lambda>p. rev (drop 1 (dropWhile (\<lambda>c. c \<noteq> CHR ''/'') (rev p)))),
      Join = (\<lambda>a b. a @ ''/'' @ b)\<rparr>"

definition thumbnail_task :: fields where
  "thumbnail_task = [''image_id'' \<mapsto> StringValue ''img1'', ''op'' \<mapsto> StringValue ''thumbnail'',
                     ''path'' \<mapsto> StringValue ''data/img1/original.png'']"

definition start_blur :: inbound where
  "start_blur = SystemEvent (lifecycle_msg blur_worker ''w1'' ''worker_start'')"

definition stop_blur :: inbound where
  "stop_blur = SystemEvent (lifecycle_msg blur_worker ''w1'' ''worker_stop'')"

definition outcome_msg :: "string \<Rightarrow> string \<Rightarrow> bool \<Rightarrow> string \<Rightarrow> fields" where
  "outcome_msg ident op success path =
     [''image_id'' \<mapsto> StringValue ident, ''op'' \<mapsto> StringValue op,
      ''success'' \<mapsto> BoolValue success, ''path'' \<mapsto> StringValue path]"

definition failed_blur :: inbound where
  "failed_blur = TransformUpdate (Struct (outcome_msg ''img1'' ''blur'' False ''data/img1/blur.jpg''))"

definition ok_blur :: inbound where
  "ok_blur = TransformUpdate (Struct (outcome_msg ''img1'' ''blur'' True ''data/img1/blur.jpg''))"

definition ok_thumbnail :: inbound where
  "ok_thumbnail = TransformUpdate (Struct (outcome_msg ''img1'' ''thumbnail'' True ''data/img1/thumbnail.jpg''))"

definition saved_upload :: "bool \<Rightarrow> bool \<Rightarrow> upload" where
  "saved_upload client request =
     \<lparr>formFileOk = True, uuid = ''u1'', mkdirAllOk = True, createOk = True, copyOk = True,
      originalPath = ''data/u1/original.png'', newClientOk = client, requestOk = request\<rparr>"

definition coordinator :: actor where
  "coordinator = \<lparr>Namespace = ''imgsvc''\<rparr>"

definition upload_msg :: fields where
  "upload_msg = [''image_id'' \<mapsto> StringValue ''img1'', ''path'' \<mapsto> StringValue ''data/img1/original.png'']"

definition scenario_registry :: "string \<Rightarrow> get_result" where
  "scenario_registry prefix =
     (if prefix = ''/imgsvc/workers/thumbnail/''
      then GetOk [''/imgsvc/workers/thumbnail/worker-thumbnail-a'',
                  ''/imgsvc/workers/thumbnail/worker-thumbnail-b'']
      else if prefix = ''/imgsvc/workers/rotate90/'' then GetOk []
      else GetError)"

definition scenario_env :: dispatch_env where
  "scenario_env = \<lparr>coordClientOk = True, etcdGet = scenario_registry\<rparr>"

definition blur_key :: "string \<Rightarrow> string" where
  "blur_key name = worker_key blur_worker name"

section \<open>The counters of the server\<close>

lemma go_inc_below: "x < max_int \<Longrightarrow> go_inc x = x + 1"
  by (simp add: go_inc_def)

lemma go_dec_pos: "0 < x \<Longrightarrow> go_dec x = x - 1"
  by (simp add: go_dec_def min_int_def)

lemma lookup0_map_inc: "lookup0 (map_inc m k) k' = (if k' = k then go_inc (lookup0 m k) else lookup0 m k')"
  by (simp add: lookup0_def map_inc_def)

lemma lookup0_map_dec: "lookup0 (map_dec m k) k' = (if k' = k then go_dec (lookup0 m k) else lookup0 m k')"
  by (simp add: lookup0_def map_dec_def)

lemma New_fields:
  "lookup0 (successPerOp New) op = 0" "lookup0 (failedPerOp New) op = 0"
  "lookup0 (activeWorkersPerOp New) op = 0" "activeWorkers New = 0" "startedWorkers New = 0"
  by (simp_all add: New_def lookup0_def)

lemmas eval_defs =
  start_blur_def stop_blur_def blur_worker_def lifecycle_msg_def mailboxName_def outcome_msg_def
  system_events_handle_def updates_handle_def lifecycle_def set_variant_def count_outcome_def
  New_def lookup0_def map_inc_def map_dec_def go_inc_def go_dec_def max_int_def min_int_def
  GetStringValue_def GetBoolValue_def is_worker_start_def is_outcome_for_def Let_def

lemma Server_run_append: "Server_run s (xs @ ys) = Server_run (Server_run s xs) ys"
  by (induction xs arbitrary: s) simp_all

text \<open>
  Each subscriber alone is the run of the server on the requests of its own mailbox.
\<close>

lemma subscribeUpdates_run:
  "fst (subscribeUpdates s reqs) = Server_run s (map TransformUpdate reqs)"
  by (induction reqs arbitrary: s) (simp_all add: split_def Let_def)

lemma subscribeSystemEvents_run:
  "fst (subscribeSystemEvents s reqs) = Server_run s (map SystemEvent reqs)"
  by (induction reqs arbitrary: s) (simp_all add: split_def Let_def)

subsection \<open>Started workers\<close>

lemma startedWorkers_step:
  "startedWorkers (Server_step s x) =
     (if is_worker_start x then go_inc (startedWorkers s) else startedWorkers s)"
  by (cases x)
     (auto simp: is_worker_start_def updates_handle_def system_events_handle_def handleUpload_def
        lifecycle_def set_variant_def count_outcome_def Let_def split: message.splits)

lemma startedWorkers_run:
  "startedWorkers s + int (length xs) \<le> max_int \<Longrightarrow>
   startedWorkers (Server_run s xs) = startedWorkers s + int (length (filter is_worker_start xs))"
proof (induction xs arbitrary: s)
  case Nil
  then show ?case by simp
next
  case (Cons x xs)
  have below: "startedWorkers s < max_int" using Cons.prems by simp
  have step: "startedWorkers (Server_step s x) = startedWorkers s + (if is_worker_start x then 1 else 0)"
    using below by (simp add: startedWorkers_step go_inc_below)
  have "startedWorkers (Server_step s x) + int (length xs) \<le> max_int"
    using Cons.prems step by (simp split: if_splits)
  from Cons.IH [OF this] step show ?case by simp
qed

text \<open>
  Claim C10. The lifetime counter \<^verbatim>\<open>startedWorkers\<close> never decreases: over any further requests
  \<open>ys\<close> the server takes (on either mailbox or as uploads) it grows by exactly the number of
  \<open>worker_start\<close> events among them, one per event; a \<open>worker_stop\<close> or any other request
  leaves it as it is. The bound keeps the 64-bit counter from wrapping around.
\<close>

theorem started_workers_monotone:
  assumes "int (length (xs @ ys)) \<le> max_int"
  shows "startedWorkers (Server_run New (xs @ ys)) =
           startedWorkers (Server_run New xs) + int (length (filter is_worker_start ys)) \<and>
         startedWorkers (Server_run New xs) \<le> startedWorkers (Server_run New (xs @ ys))"
proof -
  have "startedWorkers New + int (length xs) \<le> max_int"
    using assms by (simp add: New_fields)
  then have pre: "startedWorkers (Server_run New xs) = int (length (filter is_worker_start xs))"
    using startedWorkers_run [of New xs] by (simp add: New_fields)
  have len: "int (length xs) + int (length ys) \<le> max_int"
    using assms by simp
  have le: "int (length (filter is_worker_start xs)) \<le> int (length xs)"
    by simp
  have "startedWorkers (Server_run New xs) + int (length ys) \<le> max_int"
    using len le pre by linarith
  from startedWorkers_run [OF this] show ?thesis
    by (simp add: Server_run_append)
qed

text \<open>
  The bound holds for a start followed by a stop, a second start and a second stop, and the
  counter goes from 1 to 2.
\<close>

theorem started_workers_monotone_witness:
  "int (length ([start_blur] @ [stop_blur, start_blur, stop_blur])) \<le> max_int \<and>
   startedWorkers (Server_run New [start_blur]) = 1 \<and>
   startedWorkers (Server_run New ([start_blur] @ [stop_blur, start_blur, stop_blur])) = 2"
proof -
  have h: "int (length ([start_blur] @ [stop_blur, start_blur, stop_blur])) \<le> max_int"
    by (simp add: max_int_def)
  have one: "startedWorkers (Server_run New [start_blur]) = 1"
    by (simp add: eval_defs)
  have two: "int (length (filter is_worker_start [stop_blur, start_blur, stop_blur])) = 1"
    by (simp add: eval_defs)
  show ?thesis
    using h one two started_workers_monotone [OF h] by simp
qed

subsection \<open>Active workers\<close>

lemma activeWorkers_step:
  "activeWorkers (Server_step s x) = activeWorkers s \<or>
   activeWorkers (Server_step s x) = go_inc (activeWorkers s) \<or>
   (0 < activeWorkers s \<and> activeWorkers (Server_step s x) = go_dec (activeWorkers s))"
  by (cases x)
     (auto simp: updates_handle_def system_events_handle_def handleUpload_def
        lifecycle_def set_variant_def count_outcome_def Let_def split: message.splits)

lemma activeWorkers_step_bounds:
  assumes "0 \<le> activeWorkers s" "activeWorkers s < max_int"
  shows "0 \<le> activeWorkers (Server_step s x) \<and> activeWorkers (Server_step s x) \<le> activeWorkers s + 1"
  using activeWorkers_step [of s x] assms
  by (auto simp: go_inc_below go_dec_pos)

lemma activeWorkers_run:
  "0 \<le> activeWorkers s \<Longrightarrow> activeWorkers s + int (length xs) \<le> max_int \<Longrightarrow>
   0 \<le> activeWorkers (Server_run s xs) \<and>
   activeWorkers (Server_run s xs) \<le> activeWorkers s + int (length xs)"
proof (induction xs arbitrary: s)
  case Nil
  then show ?case by simp
next
  case (Cons x xs)
  have b: "0 \<le> activeWorkers (Server_step s x) \<and> activeWorkers (Server_step s x) \<le> activeWorkers s + 1"
    using Cons.prems by (intro activeWorkers_step_bounds) simp_all
  then have "activeWorkers (Server_step s x) + int (length xs) \<le> max_int"
    using Cons.prems by simp
  from Cons.IH [OF _ this] b show ?case by simp
qed

lemma activePerOp_step:
  "lookup0 (activeWorkersPerOp (Server_step s x)) op = lookup0 (activeWorkersPerOp s) op \<or>
   lookup0 (activeWorkersPerOp (Server_step s x)) op = go_inc (lookup0 (activeWorkersPerOp s) op) \<or>
   (0 < lookup0 (activeWorkersPerOp s) op \<and>
    lookup0 (activeWorkersPerOp (Server_step s x)) op = go_dec (lookup0 (activeWorkersPerOp s) op))"
  by (cases x)
     (auto simp: updates_handle_def system_events_handle_def handleUpload_def
        lifecycle_def set_variant_def count_outcome_def Let_def lookup0_map_inc lookup0_map_dec
        split: message.splits)

lemma activePerOp_step_bounds:
  assumes "0 \<le> lookup0 (activeWorkersPerOp s) op" "lookup0 (activeWorkersPerOp s) op < max_int"
  shows "0 \<le> lookup0 (activeWorkersPerOp (Server_step s x)) op \<and>
         lookup0 (activeWorkersPerOp (Server_step s x)) op \<le> lookup0 (activeWorkersPerOp s) op + 1"
  using activePerOp_step [of s x op] assms
  by (auto simp: go_inc_below go_dec_pos)

lemma activePerOp_run:
  "0 \<le> lookup0 (activeWorkersPerOp s) op \<Longrightarrow>
   lookup0 (activeWorkersPerOp s) op + int (length xs) \<le> max_int \<Longrightarrow>
   0 \<le> lookup0 (activeWorkersPerOp (Server_run s xs)) op \<and>
   lookup0 (activeWorkersPerOp (Server_run s xs)) op \<le> lookup0 (activeWorkersPerOp s) op + int (length xs)"
proof (induction xs arbitrary: s)
  case Nil
  then show ?case by simp
next
  case (Cons x xs)
  have b: "0 \<le> lookup0 (activeWorkersPerOp (Server_step s x)) op \<and>
     lookup0 (activeWorkersPerOp (Server_step s x)) op \<le> lookup0 (activeWorkersPerOp s) op + 1"
    using Cons.prems by (intro activePerOp_step_bounds) simp_all
  then have "lookup0 (activeWorkersPerOp (Server_step s x)) op + int (length xs) \<le> max_int"
    using Cons.prems by simp
  from Cons.IH [OF _ this] b show ?case by simp
qed

text \<open>
  Claim C4. After any sequence of requests, lifecycle events in any order among them
  (duplicated, unmatched or late stops and starts), the global active-worker counter and the
  active-worker counter of every operation are not negative. The bound keeps the 64-bit
  counters from wrapping around.
\<close>

theorem active_workers_never_negative:
  assumes "int (length xs) \<le> max_int"
  shows "0 \<le> activeWorkers (Server_run New xs) \<and>
         (\<forall>op. 0 \<le> lookup0 (activeWorkersPerOp (Server_run New xs)) op) \<and>
         (\<forall>op v. activeWorkersPerOp (Server_run New xs) op = Some v \<longrightarrow> 0 \<le> v)"
proof -
  have a: "0 \<le> activeWorkers (Server_run New xs)"
    using activeWorkers_run [of New xs] assms by (simp add: New_fields)
  have b: "0 \<le> lookup0 (activeWorkersPerOp (Server_run New xs)) op" for op
    using activePerOp_run [of New op xs] assms by (simp add: New_fields)
  have c: "0 \<le> v" if "activeWorkersPerOp (Server_run New xs) op = Some v" for op v
    using b [of op] that by (simp add: lookup0_def)
  from a b c show ?thesis by blast
qed

text \<open>
  Two stops with no start, two starts, then three stops: the counters stop at zero.
\<close>

theorem active_workers_never_negative_witness:
  "int (length [stop_blur, stop_blur, start_blur, start_blur, stop_blur, stop_blur, stop_blur]) \<le> max_int \<and>
   activeWorkers (Server_run New [stop_blur, stop_blur, start_blur, start_blur, stop_blur, stop_blur, stop_blur]) = 0 \<and>
   0 \<le> lookup0 (activeWorkersPerOp
          (Server_run New [stop_blur, stop_blur, start_blur, start_blur, stop_blur, stop_blur, stop_blur])) ''blur''"
proof -
  have h: "int (length [stop_blur, stop_blur, start_blur, start_blur, stop_blur, stop_blur, stop_blur]) \<le> max_int"
    by (simp add: max_int_def)
  have v: "activeWorkers (Server_run New [stop_blur, stop_blur, start_blur, start_blur, stop_blur, stop_blur, stop_blur]) = 0"
    by (simp add: eval_defs)
  show ?thesis
    using h v active_workers_never_negative [OF h] by blast
qed

subsection \<open>Outcomes\<close>

lemma outcome_step:
  "lookup0 (successPerOp (Server_step s x)) op =
     (if is_outcome_for op x \<and> (case x of TransformUpdate (Struct msg) \<Rightarrow> GetBoolValue (msg ''success'') | _ \<Rightarrow> False)
      then go_inc (lookup0 (successPerOp s) op) else lookup0 (successPerOp s) op) \<and>
   lookup0 (failedPerOp (Server_step s x)) op =
     (if is_outcome_for op x \<and> (case x of TransformUpdate (Struct msg) \<Rightarrow> \<not> GetBoolValue (msg ''success'') | _ \<Rightarrow> False)
      then go_inc (lookup0 (failedPerOp s) op) else lookup0 (failedPerOp s) op)"
  by (cases x)
     (auto simp: is_outcome_for_def updates_handle_def system_events_handle_def handleUpload_def
        lifecycle_def set_variant_def count_outcome_def Let_def lookup0_map_inc
        split: message.splits)

lemma outcome_step_bounds:
  assumes "0 \<le> lookup0 (successPerOp s) op" "0 \<le> lookup0 (failedPerOp s) op"
    and "lookup0 (successPerOp s) op + lookup0 (failedPerOp s) op < max_int"
  shows "lookup0 (successPerOp s) op \<le> lookup0 (successPerOp (Server_step s x)) op \<and>
         lookup0 (failedPerOp s) op \<le> lookup0 (failedPerOp (Server_step s x)) op \<and>
         lookup0 (successPerOp (Server_step s x)) op + lookup0 (failedPerOp (Server_step s x)) op =
           lookup0 (successPerOp s) op + lookup0 (failedPerOp s) op + (if is_outcome_for op x then 1 else 0)"
proof -
  have "lookup0 (successPerOp s) op < max_int" "lookup0 (failedPerOp s) op < max_int"
    using assms by simp_all
  then show ?thesis
    using outcome_step [of s x op]
    by (cases x) (auto simp: go_inc_below is_outcome_for_def split: message.splits)
qed

lemma outcome_run:
  "0 \<le> lookup0 (successPerOp s) op \<Longrightarrow> 0 \<le> lookup0 (failedPerOp s) op \<Longrightarrow>
   lookup0 (successPerOp s) op + lookup0 (failedPerOp s) op + int (length xs) \<le> max_int \<Longrightarrow>
   lookup0 (successPerOp s) op \<le> lookup0 (successPerOp (Server_run s xs)) op \<and>
   lookup0 (failedPerOp s) op \<le> lookup0 (failedPerOp (Server_run s xs)) op \<and>
   lookup0 (successPerOp (Server_run s xs)) op + lookup0 (failedPerOp (Server_run s xs)) op =
     lookup0 (successPerOp s) op + lookup0 (failedPerOp s) op + int (length (filter (is_outcome_for op) xs))"
proof (induction xs arbitrary: s)
  case Nil
  then show ?case by simp
next
  case (Cons x xs)
  let ?t = "Server_step s x"
  have b: "lookup0 (successPerOp s) op \<le> lookup0 (successPerOp ?t) op \<and>
         lookup0 (failedPerOp s) op \<le> lookup0 (failedPerOp ?t) op \<and>
         lookup0 (successPerOp ?t) op + lookup0 (failedPerOp ?t) op =
           lookup0 (successPerOp s) op + lookup0 (failedPerOp s) op + (if is_outcome_for op x then 1 else 0)"
    using Cons.prems by (intro outcome_step_bounds) simp_all
  have p1: "0 \<le> lookup0 (successPerOp ?t) op" and p2: "0 \<le> lookup0 (failedPerOp ?t) op"
    using b Cons.prems by linarith+
  have p3: "lookup0 (successPerOp ?t) op + lookup0 (failedPerOp ?t) op + int (length xs) \<le> max_int"
    using b Cons.prems by (simp split: if_splits)
  from Cons.IH [OF p1 p2 p3] b show ?case by (simp split: if_splits)
qed

lemma outcome_exactly_one:
  assumes "lookup0 (successPerOp s) (GetStringValue (msg ''op'')) < max_int"
    and "lookup0 (failedPerOp s) (GetStringValue (msg ''op'')) < max_int"
  shows "(lookup0 (successPerOp (fst (updates_handle s (Struct msg)))) (GetStringValue (msg ''op'')) =
            lookup0 (successPerOp s) (GetStringValue (msg ''op'')) + 1 \<and>
          failedPerOp (fst (updates_handle s (Struct msg))) = failedPerOp s) \<or>
         (lookup0 (failedPerOp (fst (updates_handle s (Struct msg)))) (GetStringValue (msg ''op'')) =
            lookup0 (failedPerOp s) (GetStringValue (msg ''op'')) + 1 \<and>
          successPerOp (fst (updates_handle s (Struct msg))) = successPerOp s)"
  using assms
  by (simp add: updates_handle_def count_outcome_def set_variant_def Let_def lookup0_map_inc go_inc_below)

lemma outcome_other_ops:
  "op \<noteq> GetStringValue (msg ''op'') \<Longrightarrow>
   lookup0 (successPerOp (fst (updates_handle s (Struct msg)))) op = lookup0 (successPerOp s) op \<and>
   lookup0 (failedPerOp (fst (updates_handle s (Struct msg)))) op = lookup0 (failedPerOp s) op"
  by (simp add: updates_handle_def count_outcome_def set_variant_def Let_def lookup0_map_inc)

text \<open>
  Claim C3. One outcome increments exactly one of \<^verbatim>\<open>successPerOp[op]\<close> and \<^verbatim>\<open>failedPerOp[op]\<close>
  by one and leaves the other map as it is. From the initial server, after any requests, the
  two counters of an operation add up to the number of outcomes taken from the
  \<open>transform-updates\<close> mailbox for that operation, and neither counter (so neither their sum)
  decreases when more requests are taken. The bounds keep the 64-bit counters from wrapping
  around.
\<close>

theorem outcome_counters:
  "(lookup0 (successPerOp s) (GetStringValue (msg ''op'')) < max_int \<and>
    lookup0 (failedPerOp s) (GetStringValue (msg ''op'')) < max_int \<longrightarrow>
      ((lookup0 (successPerOp (fst (updates_handle s (Struct msg)))) (GetStringValue (msg ''op'')) =
          lookup0 (successPerOp s) (GetStringValue (msg ''op'')) + 1 \<and>
        failedPerOp (fst (updates_handle s (Struct msg))) = failedPerOp s) \<or>
       (lookup0 (failedPerOp (fst (updates_handle s (Struct msg)))) (GetStringValue (msg ''op'')) =
          lookup0 (failedPerOp s) (GetStringValue (msg ''op'')) + 1 \<and>
        successPerOp (fst (updates_handle s (Struct msg))) = successPerOp s))) \<and>
   (int (length (xs @ ys)) \<le> max_int \<longrightarrow>
      lookup0 (successPerOp (Server_run New (xs @ ys))) op +
        lookup0 (failedPerOp (Server_run New (xs @ ys))) op =
        int (length (filter (is_outcome_for op) (xs @ ys))) \<and>
      lookup0 (successPerOp (Server_run New xs)) op \<le> lookup0 (successPerOp (Server_run New (xs @ ys))) op \<and>
      lookup0 (failedPerOp (Server_run New xs)) op \<le> lookup0 (failedPerOp (Server_run New (xs @ ys))) op \<and>
      lookup0 (successPerOp (Server_run New xs)) op + lookup0 (failedPerOp (Server_run New xs)) op \<le>
        lookup0 (successPerOp (Server_run New (xs @ ys))) op +
        lookup0 (failedPerOp (Server_run New (xs @ ys))) op)"
proof (intro conjI impI)
  assume "lookup0 (successPerOp s) (GetStringValue (msg ''op'')) < max_int \<and>
    lookup0 (failedPerOp s) (GetStringValue (msg ''op'')) < max_int"
  then show "(lookup0 (successPerOp (fst (updates_handle s (Struct msg)))) (GetStringValue (msg ''op'')) =
          lookup0 (successPerOp s) (GetStringValue (msg ''op'')) + 1 \<and>
        failedPerOp (fst (updates_handle s (Struct msg))) = failedPerOp s) \<or>
       (lookup0 (failedPerOp (fst (updates_handle s (Struct msg)))) (GetStringValue (msg ''op'')) =
          lookup0 (failedPerOp s) (GetStringValue (msg ''op'')) + 1 \<and>
        successPerOp (fst (updates_handle s (Struct msg))) = successPerOp s)"
    using outcome_exactly_one [of s msg] by blast
next
  assume bound: "int (length (xs @ ys)) \<le> max_int"
  let ?S = "\<lambda>zs. lookup0 (successPerOp (Server_run New zs)) op"
  let ?F = "\<lambda>zs. lookup0 (failedPerOp (Server_run New zs)) op"
  have len: "int (length xs) + int (length ys) \<le> max_int"
    using bound by simp
  have "lookup0 (successPerOp New) op + lookup0 (failedPerOp New) op + int (length xs) \<le> max_int"
    using len by (simp add: New_fields)
  from outcome_run [OF _ _ this]
  have pre: "0 \<le> ?S xs" "0 \<le> ?F xs" "?S xs + ?F xs = int (length (filter (is_outcome_for op) xs))"
    by (simp_all add: New_fields)
  have le: "int (length (filter (is_outcome_for op) xs)) \<le> int (length xs)"
    by simp
  have "?S xs + ?F xs + int (length ys) \<le> max_int"
    using pre(3) le len by linarith
  from outcome_run [OF pre(1) pre(2) this]
  have post: "?S xs \<le> ?S (xs @ ys)" "?F xs \<le> ?F (xs @ ys)"
    "?S (xs @ ys) + ?F (xs @ ys) = ?S xs + ?F xs + int (length (filter (is_outcome_for op) ys))"
    by (simp_all add: Server_run_append)
  show "?S (xs @ ys) + ?F (xs @ ys) = int (length (filter (is_outcome_for op) (xs @ ys)))"
    using post(3) pre(3) by simp
  show "?S xs \<le> ?S (xs @ ys)" by (rule post(1))
  show "?F xs \<le> ?F (xs @ ys)" by (rule post(2))
  show "?S xs + ?F xs \<le> ?S (xs @ ys) + ?F (xs @ ys)"
    using post(1) post(2) by linarith
qed

text \<open>
  A failed outcome for \<open>blur\<close> on the initial server sets \<open>failed[blur]\<close> to one and leaves
  the success map alone; after two successes (one of them for \<open>thumbnail\<close>) and two failures
  the counters of \<open>blur\<close> add up to three.
\<close>

theorem outcome_counters_witness:
  "lookup0 (successPerOp New) ''blur'' < max_int \<and> lookup0 (failedPerOp New) ''blur'' < max_int \<and>
   int (length ([ok_blur, ok_thumbnail] @ [failed_blur, failed_blur])) \<le> max_int \<and>
   lookup0 (failedPerOp (fst (updates_handle New (Struct (outcome_msg ''img1'' ''blur'' False ''data/img1/blur.jpg''))))) ''blur'' = 1 \<and>
   successPerOp (fst (updates_handle New (Struct (outcome_msg ''img1'' ''blur'' False ''data/img1/blur.jpg'')))) = successPerOp New \<and>
   lookup0 (successPerOp (Server_run New ([ok_blur, ok_thumbnail] @ [failed_blur, failed_blur]))) ''blur'' +
     lookup0 (failedPerOp (Server_run New ([ok_blur, ok_thumbnail] @ [failed_blur, failed_blur]))) ''blur'' = 3"
proof -
  have h1: "lookup0 (successPerOp New) ''blur'' < max_int \<and> lookup0 (failedPerOp New) ''blur'' < max_int"
    by (simp add: New_fields max_int_def)
  have h2: "int (length ([ok_blur, ok_thumbnail] @ [failed_blur, failed_blur])) \<le> max_int"
    by (simp add: max_int_def)
  have op: "GetStringValue (outcome_msg ''img1'' ''blur'' False ''data/img1/blur.jpg'' ''op'') = ''blur''"
    by (simp add: outcome_msg_def GetStringValue_def)
  have f: "lookup0 (failedPerOp (fst (updates_handle New (Struct (outcome_msg ''img1'' ''blur'' False ''data/img1/blur.jpg''))))) ''blur'' = 1"
    by (simp add: eval_defs)
  have g: "successPerOp (fst (updates_handle New (Struct (outcome_msg ''img1'' ''blur'' False ''data/img1/blur.jpg'')))) = successPerOp New"
    by (simp add: eval_defs)
  have n: "int (length (filter (is_outcome_for ''blur'') ([ok_blur, ok_thumbnail] @ [failed_blur, failed_blur]))) = 3"
    by (simp add: eval_defs ok_blur_def ok_thumbnail_def failed_blur_def)
  show ?thesis
    using h1 h2 f g n
      outcome_counters [of New "outcome_msg ''img1'' ''blur'' False ''data/img1/blur.jpg''"
        "[ok_blur, ok_thumbnail]" "[failed_blur, failed_blur]" "''blur''"]
    by simp
qed

subsection \<open>The variant map\<close>

lemma Base_blur: "Base ''data/img1/blur.jpg'' = ''blur.jpg''"
  by (simp add: Base_def last_element_def strip_trailing_slashes_def)

text \<open>
  Claim C2 as stated fails: on the initial server the pair (\<open>img1\<close>, \<open>blur\<close>) has no entry
  in the variant map, and after an outcome with \<open>success = false\<close> for that pair it has one.
\<close>

theorem failed_outcome_gains_variant_counterexample:
  "\<not> GetBoolValue (outcome_msg ''img1'' ''blur'' False ''data/img1/blur.jpg'' ''success'') \<and>
   variant_of New ''img1'' ''blur'' = None \<and>
   variant_of (fst (updates_handle New (Struct (outcome_msg ''img1'' ''blur'' False ''data/img1/blur.jpg''))))
     ''img1'' ''blur'' = Some ''/images/img1/blur.jpg''"
  by (simp add: eval_defs variant_of_def Base_blur)

text \<open>
  Claim C2, amended. An outcome with \<open>success = false\<close> sets the entry of its (image,
  operation) pair in the variant map to \<open>/images/<image>/<base name of the reported path>\<close>.
  The failed operation shows in the failure counters, not in a missing entry:
  \<^verbatim>\<open>failedVariants\<close> and \<^verbatim>\<open>failedPerOp[op]\<close> are incremented, \<^verbatim>\<open>totalVariants\<close> and
  \<^verbatim>\<open>successPerOp\<close> are untouched.
\<close>

theorem failed_outcome_sets_variant:
  assumes "\<not> GetBoolValue (msg ''success'')"
  shows "variant_of (fst (updates_handle s (Struct msg)))
           (GetStringValue (msg ''image_id'')) (GetStringValue (msg ''op'')) =
           Some (''/images/'' @ GetStringValue (msg ''image_id'') @ ''/'' @ Base (GetStringValue (msg ''path''))) \<and>
         failedVariants (fst (updates_handle s (Struct msg))) = go_inc (failedVariants s) \<and>
         lookup0 (failedPerOp (fst (updates_handle s (Struct msg)))) (GetStringValue (msg ''op'')) =
           go_inc (lookup0 (failedPerOp s) (GetStringValue (msg ''op''))) \<and>
         totalVariants (fst (updates_handle s (Struct msg))) = totalVariants s \<and>
         successPerOp (fst (updates_handle s (Struct msg))) = successPerOp s"
  using assms
  by (simp add: updates_handle_def count_outcome_def set_variant_def variant_of_def Let_def lookup0_map_inc)

text \<open>
  The failed \<open>blur\<close> outcome for \<open>img1\<close> on the initial server.
\<close>

theorem failed_outcome_sets_variant_witness:
  "\<not> GetBoolValue (outcome_msg ''img1'' ''blur'' False ''data/img1/blur.jpg'' ''success'') \<and>
   variant_of (fst (updates_handle New (Struct (outcome_msg ''img1'' ''blur'' False ''data/img1/blur.jpg''))))
     ''img1'' ''blur'' = Some ''/images/img1/blur.jpg'' \<and>
   failedVariants (fst (updates_handle New (Struct (outcome_msg ''img1'' ''blur'' False ''data/img1/blur.jpg'')))) = 1 \<and>
   totalVariants (fst (updates_handle New (Struct (outcome_msg ''img1'' ''blur'' False ''data/img1/blur.jpg'')))) = 0"
proof -
  have h: "\<not> GetBoolValue (outcome_msg ''img1'' ''blur'' False ''data/img1/blur.jpg'' ''success'')"
    by (simp add: outcome_msg_def GetBoolValue_def)
  have f: "GetStringValue (outcome_msg ''img1'' ''blur'' False ''data/img1/blur.jpg'' ''image_id'') = ''img1''"
    "GetStringValue (outcome_msg ''img1'' ''blur'' False ''data/img1/blur.jpg'' ''op'') = ''blur''"
    "GetStringValue (outcome_msg ''img1'' ''blur'' False ''data/img1/blur.jpg'' ''path'') = ''data/img1/blur.jpg''"
    by (simp_all add: outcome_msg_def GetStringValue_def)
  have z: "failedVariants New = 0" "totalVariants New = 0" "go_inc 0 = 1"
    by (simp_all add: New_def go_inc_def max_int_def)
  show ?thesis
    using h failed_outcome_sets_variant
            [of "outcome_msg ''img1'' ''blur'' False ''data/img1/blur.jpg''" New]
    by (simp add: f z Base_blur)
qed

text \<open>
  The write of the variant map does not depend on the flag: a successful outcome sets the
  same entry, and it is the success counters that move.
\<close>

lemma ok_outcome_sets_variant:
  "GetBoolValue (msg ''success'') \<Longrightarrow>
   variant_of (fst (updates_handle s (Struct msg)))
     (GetStringValue (msg ''image_id'')) (GetStringValue (msg ''op'')) =
     Some (''/images/'' @ GetStringValue (msg ''image_id'') @ ''/'' @ Base (GetStringValue (msg ''path''))) \<and>
   totalVariants (fst (updates_handle s (Struct msg))) = go_inc (totalVariants s) \<and>
   lookup0 (successPerOp (fst (updates_handle s (Struct msg)))) (GetStringValue (msg ''op'')) =
     go_inc (lookup0 (successPerOp s) (GetStringValue (msg ''op''))) \<and>
   failedVariants (fst (updates_handle s (Struct msg))) = failedVariants s \<and>
   failedPerOp (fst (updates_handle s (Struct msg))) = failedPerOp s"
  by (simp add: updates_handle_def count_outcome_def set_variant_def variant_of_def Let_def lookup0_map_inc)

lemma not_struct_update_ignored: "updates_handle s NotStruct = (s, [Ack])"
  by (simp add: updates_handle_def)

section \<open>Uploads\<close>

text \<open>
  Claim C9 as stated fails: the file is saved, \<^verbatim>\<open>grid.NewClient\<close> fails, and the handler
  answers 500 with the server unchanged (no count, no snapshot, no image identifier).
\<close>

theorem upload_without_client_counterexample:
  "formFileOk (saved_upload False True) \<and> mkdirAllOk (saved_upload False True) \<and>
   createOk (saved_upload False True) \<and> copyOk (saved_upload False True) \<and>
   handleUpload New (saved_upload False True) = (New, [Log ''api grid client''], HttpError ''internal'' 500)"
  by (simp add: saved_upload_def handleUpload_def)

text \<open>
  Claim C9, amended. For every upload whose file is saved and for which \<^verbatim>\<open>grid.NewClient\<close>
  succeeds, the handler increments \<^verbatim>\<open>totalUploads\<close>, broadcasts the snapshot of the new
  state and answers with the image identifier, also when the request to the \<open>uploads\<close>
  mailbox fails (the failure is only logged).
\<close>

theorem upload_counted_when_client_created:
  assumes "formFileOk r" "mkdirAllOk r" "createOk r" "copyOk r" "newClientOk r"
  shows "totalUploads (fst (handleUpload s r)) = go_inc (totalUploads s) \<and>
         (totalUploads s < max_int \<longrightarrow> totalUploads (fst (handleUpload s r)) = totalUploads s + 1) \<and>
         BroadcastSnapshot (fst (handleUpload s r)) \<in> set (fst (snd (handleUpload s r))) \<and>
         snd (snd (handleUpload s r)) = HttpJson [(''image_id'', uuid r)] \<and>
         (\<not> requestOk r \<longrightarrow> Log ''api upload request'' \<in> set (fst (snd (handleUpload s r))))"
  using assms by (simp add: handleUpload_def Let_def go_inc_below)

text \<open>
  A saved upload whose request to the \<open>uploads\<close> mailbox fails is counted and answered.
\<close>

theorem upload_counted_when_client_created_witness:
  "formFileOk (saved_upload True False) \<and> mkdirAllOk (saved_upload True False) \<and>
   createOk (saved_upload True False) \<and> copyOk (saved_upload True False) \<and>
   newClientOk (saved_upload True False) \<and> \<not> requestOk (saved_upload True False) \<and>
   totalUploads (fst (handleUpload New (saved_upload True False))) = 1 \<and>
   snd (snd (handleUpload New (saved_upload True False))) = HttpJson [(''image_id'', ''u1'')]"
proof -
  have h: "formFileOk (saved_upload True False)" "mkdirAllOk (saved_upload True False)"
    "createOk (saved_upload True False)" "copyOk (saved_upload True False)"
    "newClientOk (saved_upload True False)"
    by (simp_all add: saved_upload_def)
  have z: "totalUploads New = 0" "go_inc 0 = 1" "uuid (saved_upload True False) = ''u1''"
    "\<not> requestOk (saved_upload True False)"
    by (simp_all add: New_def go_inc_def max_int_def saved_upload_def)
  show ?thesis
    using h z upload_counted_when_client_created [OF h, of New] by simp
qed

text \<open>
  On any server, a saved upload for which \<^verbatim>\<open>grid.NewClient\<close> fails is answered 500 and
  changes nothing; an upload that is not saved changes nothing either.
\<close>

lemma upload_without_client:
  "formFileOk r \<Longrightarrow> mkdirAllOk r \<Longrightarrow> createOk r \<Longrightarrow> copyOk r \<Longrightarrow> \<not> newClientOk r \<Longrightarrow>
   handleUpload s r = (s, [Log ''api grid client''], HttpError ''internal'' 500)"
  by (simp add: handleUpload_def)

lemma upload_not_saved:
  "\<not> (formFileOk r \<and> mkdirAllOk r \<and> createOk r \<and> copyOk r) \<Longrightarrow>
   fst (handleUpload s r) = s \<and> fst (snd (handleUpload s r)) = []"
  by (auto simp: handleUpload_def)

section \<open>The worker\<close>

lemma worker_handle_no_stop: "filter is_worker_stop (worker_handle w env i req) = []"
  by (cases req) (simp_all add: worker_handle_def is_worker_stop_def Let_def)

lemma worker_handle_no_delete: "filter is_delete (worker_handle w env i req) = []"
  by (cases req) (simp_all add: worker_handle_def is_delete_def Let_def)

lemma worker_loop_no_stop: "filter is_worker_stop (worker_loop w env i reqs) = []"
  by (induction reqs arbitrary: i) (simp_all add: worker_handle_no_stop)

lemma worker_loop_no_delete: "filter is_delete (worker_loop w env i reqs) = []"
  by (induction reqs arbitrary: i) (simp_all add: worker_handle_no_delete)

lemma is_worker_stop_simps:
  "is_worker_stop (RequestC mb (lifecycle_msg w name evt)) =
     (mb = ''system-events'' \<and> evt = ''worker_stop'')"
  "\<not> is_worker_stop (EtcdPut k v)"
  "\<not> is_worker_stop (EtcdDelete k)"
  "\<not> is_worker_stop (Log l)"
  "\<not> is_worker_stop MailboxClose"
  by (simp_all add: is_worker_stop_def lifecycle_msg_def GetStringValue_def)

lemma is_delete_simps:
  "is_delete (EtcdDelete k)"
  "\<not> is_delete (RequestC mb m)"
  "\<not> is_delete (EtcdPut k v)"
  "\<not> is_delete (Log l)"
  "\<not> is_delete MailboxClose"
  by (simp_all add: is_delete_def)

text \<open>
  On every path \<^verbatim>\<open>Worker.Act\<close> deletes its own key exactly once; it announces its stop once
  when the mailbox was created and the grid client for the announcement could be opened,
  and not at all otherwise.
\<close>

lemma Worker_Act_cleanup:
  "length (filter is_worker_stop (Worker_Act w env reqs)) =
     (if newMailbox env = MailboxOk \<and> gridClientOk env AnnounceStop then 1 else 0) \<and>
   filter is_delete (Worker_Act w env reqs) = [EtcdDelete (worker_key w (actorName env))]"
  by (cases "newMailbox env")
     (simp_all add: Worker_Act_def Let_def worker_loop_no_stop worker_loop_no_delete
        is_worker_stop_simps is_delete_simps)

text \<open>
  Claim C1, on the code. A \<open>blur\<close> worker whose \<^verbatim>\<open>NewMailbox\<close> returns
  \<^verbatim>\<open>ErrAlreadyRegistered\<close> announces its start, writes its key, logs, deletes its key and
  returns: it deletes the key once and announces no stop. The same holds for any other
  mailbox error; only the worker whose mailbox was created announces its stop (once).
\<close>

theorem Worker_Act_collision_no_stop:
  "Worker_Act blur_worker (sample_env ErrAlreadyRegistered) reqs =
     [RequestC ''system-events'' (lifecycle_msg blur_worker ''worker-blur-1'' ''worker_start''),
      EtcdPut ''/imgsvc/workers/blur/worker-blur-worker-blur-1'' [],
      Log ''worker: mailbox already registered on this peer'',
      EtcdDelete ''/imgsvc/workers/blur/worker-blur-worker-blur-1''] \<and>
   length (filter is_worker_stop (Worker_Act blur_worker (sample_env ErrAlreadyRegistered) reqs)) = 0 \<and>
   length (filter is_worker_stop (Worker_Act blur_worker (sample_env MailboxError) reqs)) = 0 \<and>
   length (filter is_worker_stop (Worker_Act blur_worker (sample_env MailboxOk) reqs)) = 1"
proof -
  have t: "Worker_Act blur_worker (sample_env ErrAlreadyRegistered) reqs =
     [RequestC ''system-events'' (lifecycle_msg blur_worker ''worker-blur-1'' ''worker_start''),
      EtcdPut ''/imgsvc/workers/blur/worker-blur-worker-blur-1'' [],
      Log ''worker: mailbox already registered on this peer'',
      EtcdDelete ''/imgsvc/workers/blur/worker-blur-worker-blur-1'']"
    by (simp add: Worker_Act_def sample_env_def blur_worker_def worker_key_def mailboxName_def Let_def)
  have c: "length (filter is_worker_stop (Worker_Act blur_worker (sample_env r) reqs)) =
      (if r = MailboxOk then 1 else 0)" for r
    using Worker_Act_cleanup [of blur_worker "sample_env r" reqs] by (simp add: sample_env_def)
  show ?thesis
    by (intro conjI; (rule t | simp add: c))
qed

text \<open>
  Claim C7. A worker configured for an operation that receives a task for another operation
  acknowledges the request and does nothing else with it: no transform, no response, no
  outcome sent to \<open>transform-updates\<close>, no error logged; its loop goes on to the next
  request. (A worker whose \<^verbatim>\<open>SupportedOp\<close> is empty has no configured operation and takes
  every task.)
\<close>

theorem worker_discards_mismatch:
  assumes "SupportedOp w \<noteq> []" and "GetStringValue (task ''op'') \<noteq> SupportedOp w"
  shows "worker_handle w env i (Struct task) = [Ack] \<and>
         worker_loop w env i (Struct task # reqs) = Ack # worker_loop w env (Suc i) reqs"
  using assms by (simp add: worker_handle_def)

text \<open>
  A \<open>blur\<close> worker that receives one \<open>thumbnail\<close> task and is then stopped.
\<close>

theorem worker_discards_mismatch_witness:
  "SupportedOp blur_worker \<noteq> [] \<and> GetStringValue (thumbnail_task ''op'') \<noteq> SupportedOp blur_worker \<and>
   worker_handle blur_worker (sample_env MailboxOk) 0 (Struct thumbnail_task) = [Ack] \<and>
   Worker_Act blur_worker (sample_env MailboxOk) [Struct thumbnail_task] =
     [RequestC ''system-events'' (lifecycle_msg blur_worker ''worker-blur-1'' ''worker_start''),
      EtcdPut ''/imgsvc/workers/blur/worker-blur-worker-blur-1'' [],
      Ack,
      RequestC ''system-events'' (lifecycle_msg blur_worker ''worker-blur-1'' ''worker_stop''),
      EtcdDelete ''/imgsvc/workers/blur/worker-blur-worker-blur-1'', MailboxClose]"
proof -
  have h1: "SupportedOp blur_worker \<noteq> []"
    by (simp add: blur_worker_def)
  have h2: "GetStringValue (thumbnail_task ''op'') \<noteq> SupportedOp blur_worker"
    by (simp add: blur_worker_def thumbnail_task_def GetStringValue_def)
  have loop: "worker_loop blur_worker (sample_env MailboxOk) 0 [Struct thumbnail_task] = [Ack]"
    using h1 h2 worker_discards_mismatch [of blur_worker thumbnail_task "sample_env MailboxOk" 0 "[]"]
    by simp
  have act: "Worker_Act blur_worker (sample_env MailboxOk) [Struct thumbnail_task] =
     [RequestC ''system-events'' (lifecycle_msg blur_worker ''worker-blur-1'' ''worker_start''),
      EtcdPut ''/imgsvc/workers/blur/worker-blur-worker-blur-1'' [],
      Ack,
      RequestC ''system-events'' (lifecycle_msg blur_worker ''worker-blur-1'' ''worker_stop''),
      EtcdDelete ''/imgsvc/workers/blur/worker-blur-worker-blur-1'', MailboxClose]"
    unfolding Worker_Act_def Let_def loop
    by (simp add: sample_env_def blur_worker_def worker_key_def mailboxName_def)
  show ?thesis
    using h1 h2 act
      worker_discards_mismatch [of blur_worker thumbnail_task "sample_env MailboxOk" 0 "[]"]
    by simp
qed

text \<open>
  A worker with no configured operation runs the transform for any task.
\<close>

lemma wildcard_worker_takes_every_task:
  "SupportedOp w = [] \<Longrightarrow>
   worker_handle w env i (Struct task) \<noteq> [Ack] \<and>
   Transform (GetStringValue (task ''path''))
     (Join env (Dir env (GetStringValue (task ''path''))) (GetStringValue (task ''op'') @ ''.jpg''))
     (GetStringValue (task ''op'')) \<in> set (worker_handle w env i (Struct task))"
  by (simp add: worker_handle_def Let_def)

section \<open>The coordinator\<close>

lemma discover_error: "get (workers_prefix c op) = GetError \<Longrightarrow> discover c get op = []"
  by (simp add: discover_def)

lemma discover_empty: "get (workers_prefix c op) = GetOk [] \<Longrightarrow> discover c get op = []"
  by (simp add: discover_def)

lemma discover_upd_error:
  "get p = GetError \<Longrightarrow> discover c (get(p := GetOk [])) op = discover c get op"
  by (simp add: discover_def)

lemma dispatch_ops_cong:
  "(\<And>op. op \<in> set os \<Longrightarrow> discover c (etcdGet env1) op = discover c (etcdGet env2) op) \<Longrightarrow>
   dispatch_ops c env1 msg ident os = dispatch_ops c env2 msg ident os"
  by (induction os) (simp_all add: Let_def)

lemma dispatch_ops_no_log: "filter is_log (dispatch_ops c env msg ident os) = []"
  by (induction os) (simp_all add: Let_def is_log_def)

lemma dispatch_ops_skip:
  "discover c (etcdGet env) op = [] \<Longrightarrow>
   dispatch_ops c env msg ident (op # rest) =
     EtcdGet dispatchTimeout (workers_prefix c op) # dispatch_ops c env msg ident rest"
  by simp

lemma dispatch_ops_broadcast:
  "discover c (etcdGet env) op \<noteq> [] \<Longrightarrow>
   dispatch_ops c env msg ident (op # rest) =
     EtcdGet dispatchTimeout (workers_prefix c op) #
     BroadcastC dispatchTimeout (discover c (etcdGet env) op) (make_task msg ident op) #
     dispatch_ops c env msg ident rest"
  by simp

text \<open>
  Claim C6. A registry query that fails and one that returns no key both discover the empty
  member list. An operation whose discovery is empty costs one \<^verbatim>\<open>Get\<close> and nothing else (no
  broadcast, no second query), and the loop goes on with the remaining operations; no
  dispatch logs an error. Replacing a failing answer of the registry by the empty answer
  changes nothing in what the coordinator does on a request.
\<close>

theorem empty_discovery_skips:
  "(etcdGet env (workers_prefix c op) = GetError \<or> etcdGet env (workers_prefix c op) = GetOk [] \<longrightarrow>
      discover c (etcdGet env) op = []) \<and>
   (discover c (etcdGet env) op = [] \<longrightarrow>
      dispatch_ops c env msg ident (op # rest) =
        EtcdGet dispatchTimeout (workers_prefix c op) # dispatch_ops c env msg ident rest) \<and>
   filter is_log (dispatch_ops c env msg ident os) = [] \<and>
   (etcdGet env p = GetError \<longrightarrow>
      coordinator_handle c (env\<lparr>etcdGet := (etcdGet env)(p := GetOk [])\<rparr>) req =
      coordinator_handle c env req)"
proof (intro conjI impI)
  assume "etcdGet env (workers_prefix c op) = GetError \<or> etcdGet env (workers_prefix c op) = GetOk []"
  then show "discover c (etcdGet env) op = []"
    using discover_error discover_empty by blast
next
  assume "discover c (etcdGet env) op = []"
  then show "dispatch_ops c env msg ident (op # rest) =
      EtcdGet dispatchTimeout (workers_prefix c op) # dispatch_ops c env msg ident rest"
    by (rule dispatch_ops_skip)
next
  show "filter is_log (dispatch_ops c env msg ident os) = []"
    by (rule dispatch_ops_no_log)
next
  assume err: "etcdGet env p = GetError"
  let ?env = "env\<lparr>etcdGet := (etcdGet env)(p := GetOk [])\<rparr>"
  have "dispatch_ops c ?env m i os' = dispatch_ops c env m i os'" for m i os'
    using err by (intro dispatch_ops_cong) (simp add: discover_upd_error)
  then show "coordinator_handle c ?env req = coordinator_handle c env req"
    by (cases req) (simp_all add: coordinator_handle_def)
qed

lemma scenario_discover:
  "discover coordinator scenario_registry ''thumbnail'' = [''worker-thumbnail-a'', ''worker-thumbnail-b'']"
  "discover coordinator scenario_registry ''grayscale'' = []"
  "discover coordinator scenario_registry ''blur'' = []"
  "discover coordinator scenario_registry ''rotate90'' = []"
  by (simp_all add: discover_def workers_prefix_def coordinator_def scenario_registry_def)

lemma scenario_handle:
  "coordinator_handle coordinator scenario_env (Struct upload_msg) =
     [Ack,
      EtcdGet 10 ''/imgsvc/workers/thumbnail/'',
      BroadcastC 10 [''worker-thumbnail-a'', ''worker-thumbnail-b''] (make_task upload_msg ''img1'' ''thumbnail''),
      EtcdGet 10 ''/imgsvc/workers/grayscale/'',
      EtcdGet 10 ''/imgsvc/workers/blur/'',
      EtcdGet 10 ''/imgsvc/workers/rotate90/'']"
  by (simp add: coordinator_handle_def ops_def scenario_env_def scenario_discover Let_def
        dispatchTimeout_def upload_msg_def GetStringValue_def)
     (simp add: workers_prefix_def coordinator_def)

text \<open>
  Two workers for \<open>thumbnail\<close>, none for \<open>rotate90\<close>, and a registry that fails on the
  other prefixes: only \<open>thumbnail\<close> is broadcast, and the registry that answers \<open>blur\<close>
  with no key gives the same run.
\<close>

theorem empty_discovery_skips_witness:
  "etcdGet scenario_env (workers_prefix coordinator ''blur'') = GetError \<and>
   etcdGet scenario_env (workers_prefix coordinator ''rotate90'') = GetOk [] \<and>
   discover coordinator (etcdGet scenario_env) ''blur'' = [] \<and>
   discover coordinator (etcdGet scenario_env) ''rotate90'' = [] \<and>
   dispatch_ops coordinator scenario_env upload_msg ''img1'' [''blur'', ''rotate90''] =
     [EtcdGet 10 ''/imgsvc/workers/blur/'', EtcdGet 10 ''/imgsvc/workers/rotate90/''] \<and>
   coordinator_handle coordinator
     (scenario_env\<lparr>etcdGet := (etcdGet scenario_env)(''/imgsvc/workers/blur/'' := GetOk [])\<rparr>)
     (Struct upload_msg) =
     [Ack,
      EtcdGet 10 ''/imgsvc/workers/thumbnail/'',
      BroadcastC 10 [''worker-thumbnail-a'', ''worker-thumbnail-b''] (make_task upload_msg ''img1'' ''thumbnail''),
      EtcdGet 10 ''/imgsvc/workers/grayscale/'',
      EtcdGet 10 ''/imgsvc/workers/blur/'',
      EtcdGet 10 ''/imgsvc/workers/rotate90/'']"
proof -
  have p: "workers_prefix coordinator ''blur'' = ''/imgsvc/workers/blur/''"
    "workers_prefix coordinator ''rotate90'' = ''/imgsvc/workers/rotate90/''"
    by (simp_all add: workers_prefix_def coordinator_def)
  have h1: "etcdGet scenario_env ''/imgsvc/workers/blur/'' = GetError"
    by (simp add: scenario_env_def scenario_registry_def)
  have h2: "etcdGet scenario_env ''/imgsvc/workers/rotate90/'' = GetOk []"
    by (simp add: scenario_env_def scenario_registry_def)
  have t: "dispatchTimeout = 10"
    by (simp add: dispatchTimeout_def)
  have e: "dispatch_ops coordinator scenario_env upload_msg ''img1'' [] = []"
    by simp
  note blur = empty_discovery_skips
    [of scenario_env coordinator "''blur''" upload_msg "''img1''" "[''rotate90'']" "[]"
        "''/imgsvc/workers/blur/''" "Struct upload_msg"]
  note rot = empty_discovery_skips
    [of scenario_env coordinator "''rotate90''" upload_msg "''img1''" "[]" "[]"
        "''/imgsvc/workers/blur/''" "Struct upload_msg"]
  show ?thesis
    using h1 h2 blur rot by (simp add: p t scenario_handle)
qed

text \<open>
  The broadcasts of one dispatch, in order: one per operation whose discovery is not empty,
  to the members discovered, carrying the task of that operation, on a context of
  \<^verbatim>\<open>dispatchTimeout\<close> seconds.
\<close>

lemma dispatch_ops_broadcasts:
  "filter is_broadcast (dispatch_ops c env msg ident os) =
     map (\<lambda>op. BroadcastC dispatchTimeout (discover c (etcdGet env) op) (make_task msg ident op))
       (filter (\<lambda>op. discover c (etcdGet env) op \<noteq> []) os)"
  by (induction os) (simp_all add: Let_def is_broadcast_def)

section \<open>The registry\<close>

lemma etcd_put_idem: "etcd_put (etcd_put s k v) k v = etcd_put s k v"
  by (induction s k v rule: etcd_put.induct) simp_all

lemma etcd_delete_idem: "etcd_delete (etcd_delete s k) k = etcd_delete s k"
  by (induction s k rule: etcd_delete.induct) simp_all

lemma keys_etcd_put: "set (map fst (etcd_put s k v)) = insert k (set (map fst s))"
  by (induction s k v rule: etcd_put.induct) auto

lemma keys_etcd_delete: "map fst (etcd_delete s k) = filter (\<lambda>k'. k' \<noteq> k) (map fst s)"
  by (induction s k rule: etcd_delete.induct) simp_all

lemma distinct_etcd_put: "distinct (map fst s) \<Longrightarrow> distinct (map fst (etcd_put s k v))"
proof (induction s)
  case Nil
  then show ?case by simp
next
  case (Cons kv s)
  obtain k' v' where kv: "kv = (k', v')" by (cases kv)
  show ?case
  proof (cases "k' = k")
    case True
    with Cons.prems kv show ?thesis by simp
  next
    case False
    have "k' \<notin> set (map fst (etcd_put s k v))"
      using Cons.prems kv False by (simp add: keys_etcd_put del: set_map)
    with Cons kv False show ?thesis by simp
  qed
qed

lemma distinct_etcd_delete: "distinct (map fst s) \<Longrightarrow> distinct (map fst (etcd_delete s k))"
  by (simp add: keys_etcd_delete)

lemma distinct_etcd_apply: "distinct (map fst s) \<Longrightarrow> distinct (map fst (etcd_apply s e))"
  by (cases e) (simp_all add: distinct_etcd_put distinct_etcd_delete)

lemma distinct_etcd_run: "distinct (map fst s) \<Longrightarrow> distinct (map fst (etcd_run s es))"
  by (induction es arbitrary: s) (simp_all add: distinct_etcd_apply)

lemma etcd_put_present:
  "distinct (map fst s) \<Longrightarrow> (k, v) \<in> set s \<Longrightarrow> etcd_put s k v = s"
  by (induction s k v rule: etcd_put.induct) (auto simp: rev_image_eqI)

lemma etcd_delete_absent: "k \<notin> set (map fst s) \<Longrightarrow> etcd_delete s k = s"
  by (induction s k rule: etcd_delete.induct) auto

lemma count_list_distinct: "distinct xs \<Longrightarrow> x \<in> set xs \<Longrightarrow> count_list xs x = 1"
  by (induction xs) auto

lemma collect_members_prefixed:
  "\<forall>k \<in> set ks. has_prefix p k \<Longrightarrow> collect_members p ks = map (drop (length p)) ks"
proof (induction ks)
  case Nil
  then show ?case by simp
next
  case (Cons k ks)
  have "take (length p) k = p" using Cons.prems by (simp add: has_prefix_def)
  then have "length (take (length p) k) = length p"
    by simp
  then have "length p \<le> length k"
    by simp
  with Cons show ?case by simp
qed

lemma drop_prefix_inj:
  "has_prefix p k \<Longrightarrow> has_prefix p k' \<Longrightarrow> drop (length p) k = drop (length p) k' \<Longrightarrow> k = k'"
  by (metis append_take_drop_id has_prefix_def)

lemma distinct_list_workers:
  assumes "distinct (map fst s)"
  shows "distinct (list_workers s c op)"
proof -
  let ?p = "workers_prefix c op"
  let ?ks = "filter (has_prefix ?p) (map fst s)"
  have d: "distinct ?ks" using assms by simp
  have pre: "\<forall>k \<in> set ?ks. has_prefix ?p k" by simp
  have inj: "inj_on (drop (length ?p)) (set ?ks)"
    by (rule inj_onI) (use pre drop_prefix_inj in blast)
  have "list_workers s c op = map (drop (length ?p)) ?ks"
    using collect_members_prefixed [OF pre]
    by (simp add: list_workers_def discover_def etcd_get_prefix_def)
  then show ?thesis using d inj by (simp add: distinct_map)
qed

lemma worker_key_split:
  "worker_key w name = workers_prefix w (SupportedOp w) @ mailboxName w name"
  by (simp add: worker_key_def workers_prefix_def)

lemma registered_listed:
  "mailboxName w name \<in> set (list_workers (register s w name) w (SupportedOp w))"
proof -
  let ?p = "workers_prefix w (SupportedOp w)"
  let ?ks = "filter (has_prefix ?p) (map fst (register s w name))"
  have pre: "\<forall>k \<in> set ?ks. has_prefix ?p k" by simp
  have "worker_key w name \<in> set (map fst (register s w name))"
    unfolding register_def etcd_apply.simps keys_etcd_put by simp
  moreover have "has_prefix ?p (worker_key w name)"
    by (simp add: has_prefix_def worker_key_split)
  ultimately have "worker_key w name \<in> set ?ks" by simp
  then have "drop (length ?p) (worker_key w name) \<in> set (map (drop (length ?p)) ?ks)"
    by (metis image_eqI set_map)
  moreover have "list_workers (register s w name) w (SupportedOp w) = map (drop (length ?p)) ?ks"
    using collect_members_prefixed [OF pre]
    by (simp add: list_workers_def discover_def etcd_get_prefix_def)
  ultimately show ?thesis by (simp add: worker_key_split)
qed

text \<open>
  Claim C8. Registering twice is registering once and deregistering twice is deregistering
  once; registering what is registered and deregistering what is absent leave the store as it
  is. Whatever writes the actors made on a store that started empty, the coordinator's
  list for an operation has no duplicate, and a worker registered (twice) appears in the
  list of its operation exactly once.
\<close>

theorem register_deregister_idempotent:
  "register (register s w name) w name = register s w name \<and>
   deregister (deregister s w name) w name = deregister s w name \<and>
   (distinct (map fst s) \<and> (worker_key w name, []) \<in> set s \<longrightarrow> register s w name = s) \<and>
   (worker_key w name \<notin> set (map fst s) \<longrightarrow> deregister s w name = s) \<and>
   distinct (list_workers (etcd_run [] es) c op) \<and>
   count_list (list_workers (register (register (etcd_run [] es) w name) w name) w (SupportedOp w))
     (mailboxName w name) = 1"
proof (intro conjI impI)
  show "register (register s w name) w name = register s w name"
    by (simp add: register_def etcd_put_idem)
  show "deregister (deregister s w name) w name = deregister s w name"
    by (simp add: deregister_def etcd_delete_idem)
  show "register s w name = s" if "distinct (map fst s) \<and> (worker_key w name, []) \<in> set s"
    using that by (simp add: register_def etcd_put_present)
  show "deregister s w name = s" if "worker_key w name \<notin> set (map fst s)"
    using that by (simp add: deregister_def etcd_delete_absent)
  have d: "distinct (map fst (etcd_run [] es))"
    by (rule distinct_etcd_run) simp
  then show "distinct (list_workers (etcd_run [] es) c op)"
    by (rule distinct_list_workers)
  let ?r = "register (register (etcd_run [] es) w name) w name"
  have "distinct (map fst ?r)"
    using d by (simp add: register_def distinct_etcd_put)
  then have "distinct (list_workers ?r w (SupportedOp w))"
    by (rule distinct_list_workers)
  moreover have "mailboxName w name \<in> set (list_workers ?r w (SupportedOp w))"
    by (rule registered_listed)
  ultimately show "count_list (list_workers ?r w (SupportedOp w)) (mailboxName w name) = 1"
    by (rule count_list_distinct)
qed

text \<open>
  A \<open>blur\<close> worker registered on the empty store and deregistered again, and a store on
  which one instance was written twice and another once.
\<close>

theorem register_deregister_idempotent_witness:
  "distinct (map fst (register [] blur_worker ''w1'')) \<and>
   (worker_key blur_worker ''w1'', []) \<in> set (register [] blur_worker ''w1'') \<and>
   register (register [] blur_worker ''w1'') blur_worker ''w1'' = register [] blur_worker ''w1'' \<and>
   worker_key blur_worker ''w1'' \<notin> set (map fst (deregister (register [] blur_worker ''w1'') blur_worker ''w1'')) \<and>
   deregister (deregister (register [] blur_worker ''w1'') blur_worker ''w1'') blur_worker ''w1'' = [] \<and>
   list_workers
     (etcd_run [] [EtcdPut (blur_key ''w1'') [], EtcdPut (blur_key ''w2'') [], EtcdPut (blur_key ''w1'') []])
     coordinator ''blur'' = [''worker-blur-w1'', ''worker-blur-w2'']"
proof -
  let ?s = "register [] blur_worker ''w1''"
  have s: "?s = [(worker_key blur_worker ''w1'', [])]"
    by (simp add: register_def)
  have h1: "distinct (map fst ?s) \<and> (worker_key blur_worker ''w1'', []) \<in> set ?s"
    by (simp add: s)
  have d: "deregister ?s blur_worker ''w1'' = []"
    by (simp add: s deregister_def)
  have h2: "worker_key blur_worker ''w1'' \<notin> set (map fst (deregister ?s blur_worker ''w1''))"
    by (simp add: d)
  have k: "blur_key ''w1'' = ''/imgsvc/workers/blur/worker-blur-w1''"
    "blur_key ''w2'' = ''/imgsvc/workers/blur/worker-blur-w2''"
    by (simp_all add: blur_key_def worker_key_def blur_worker_def mailboxName_def)
  have l: "list_workers
     (etcd_run [] [EtcdPut (blur_key ''w1'') [], EtcdPut (blur_key ''w2'') [], EtcdPut (blur_key ''w1'') []])
     coordinator ''blur'' = [''worker-blur-w1'', ''worker-blur-w2'']"
    by (simp add: k list_workers_def discover_def etcd_get_prefix_def workers_prefix_def
          coordinator_def has_prefix_def)
  note a = register_deregister_idempotent [of ?s blur_worker "''w1''" "[]" coordinator "''blur''"]
  note b = register_deregister_idempotent
    [of "deregister ?s blur_worker ''w1''" blur_worker "''w1''" "[]" coordinator "''blur''"]
  have r: "register ?s blur_worker ''w1'' = ?s"
    using a h1 by blast
  have dd: "deregister (deregister ?s blur_worker ''w1'') blur_worker ''w1'' = deregister ?s blur_worker ''w1''"
    using b h2 by blast
  show ?thesis
    using h1 h2 r dd d l by simp
qed

lemma etcd_run_append: "etcd_run s (es @ fs) = etcd_run (etcd_run s es) fs"
  by (induction es arbitrary: s) simp_all

lemma etcd_run_worker_handle: "etcd_run s (worker_handle w env i req) = s"
  by (cases req) (simp_all add: worker_handle_def Let_def)

lemma etcd_run_worker_loop: "etcd_run s (worker_loop w env i reqs) = s"
  by (induction reqs arbitrary: i) (simp_all add: etcd_run_append etcd_run_worker_handle)

text \<open>
  What a whole run of \<^verbatim>\<open>Worker.Act\<close> does to the store, on every path: it registers and
  deregisters its own key.
\<close>

lemma Worker_Act_on_registry:
  "etcd_run s (Worker_Act w env reqs) =
     deregister (register s w (actorName env)) w (actorName env)"
  by (cases "newMailbox env")
     (simp_all add: Worker_Act_def Let_def register_def deregister_def etcd_run_append
        etcd_run_worker_loop)

end
